theory Spec2Isabelle
  imports Main
begin

section \<open>The sparse set of sparsesets.go\<close>

text \<open>
  The Go type \<^verbatim>\<open>Set\<close> is a struct of an integer \<^verbatim>\<open>size\<close> and two slices of
  integers, \<^verbatim>\<open>values\<close> and \<^verbatim>\<open>positions\<close>. The record below has the same three
  fields; the names carry the suffix \<open>_f\<close> because \<open>size\<close> is a constant of HOL and
  \<open>values\<close> is a command of Isabelle, and the record is called \<open>SparseSet\<close> because
  \<open>Set\<close> is a theory of HOL.

  Go's \<^verbatim>\<open>int\<close> is modelled by the mathematical integers. The only arithmetic of the
  package on an \<^verbatim>\<open>int\<close> is \<^verbatim>\<open>size -= 1\<close>, \<^verbatim>\<open>size += 1\<close> and the loop counter of
  \<^verbatim>\<open>New\<close>, which stays below \<open>n\<close>. \<^verbatim>\<open>size\<close> starts at 0, \<^verbatim>\<open>Clear\<close> sets it
  back to 0 and every other call changes it by at most one, so on a run of fewer than
  \<open>2^63\<close> calls (\<open>2^31\<close> where \<^verbatim>\<open>int\<close> has 32 bits) nothing overflows and the
  model computes what the machine computes.

  A slice is a list indexed from 0. Both slices are allocated by \<^verbatim>\<open>make([]int, n)\<close>
  and never appended to or resliced in place, so the capacity of each is its length.
  An index expression \<^verbatim>\<open>s[i]\<close> outside \<open>0 \<le> i < len(s)\<close> is a run-time panic in Go;
  every read and write of the model tests the index first and panics otherwise.
\<close>

record SparseSet =
  size_f :: int
  values_f :: "int list"
  positions_f :: "int list"

text \<open>
  A call of a Go function either returns or panics. The \<^verbatim>\<open>error\<close> returned by
  \<^verbatim>\<open>Insert\<close> and \<^verbatim>\<open>Remove\<close> is \<^verbatim>\<open>nil\<close> (\<open>None\<close>) or the value built by
  \<^verbatim>\<open>fmt.Errorf("elem %d is out of the set range [0, %d)", elem, ss.N())\<close>,
  modelled by \<open>OutOfRange elem n\<close>.
\<close>

datatype 'a result = Returns 'a | Panics

datatype error = OutOfRange int int

definition in_range :: "int \<Rightarrow> 'a list \<Rightarrow> bool" where
  "in_range i xs = (0 \<le> i \<and> i < int (length xs))"

subsection \<open>New\<close>

text \<open>
  The loop \<^verbatim>\<open>for i := 0; i < n; i++ { ss.values[i] = i; ss.positions[i] = i }\<close>,
  started on the two zero-filled slices that \<^verbatim>\<open>make\<close> returns.
\<close>

function New_loop :: "int \<Rightarrow> int \<Rightarrow> SparseSet \<Rightarrow> SparseSet result" where
  "New_loop i n ss =
     (if i < n then
        (if \<not> in_range i (values_f ss) then Panics
         else if \<not> in_range i (positions_f ss) then Panics
         else New_loop (i + 1) n
                (ss\<lparr>values_f := (values_f ss)[nat i := i],
                    positions_f := (positions_f ss)[nat i := i]\<rparr>))
      else Returns ss)"
  by pat_completeness auto
termination
  by (relation "measure (\<lambda>(i, n, ss). nat (n - i))") auto

declare New_loop.simps [simp del]

definition New :: "int \<Rightarrow> SparseSet result" where
  "New n =
     (if n < 0 then Panics
      else New_loop 0 n
             \<lparr>size_f = 0, values_f = replicate (nat n) 0, positions_f = replicate (nat n) 0\<rparr>)"

subsection \<open>Contains, N, Size\<close>

text \<open>
  These three methods assign to no field of the receiver, so each is a function of the
  state alone. \<^verbatim>\<open>Contains\<close> indexes \<^verbatim>\<open>positions\<close> without any test of its own.
\<close>

definition Contains :: "SparseSet \<Rightarrow> int \<Rightarrow> bool result" where
  "Contains ss elem =
     (if in_range elem (positions_f ss)
      then Returns (positions_f ss ! nat elem < size_f ss)
      else Panics)"

definition N :: "SparseSet \<Rightarrow> int" where
  "N ss = int (length (values_f ss))"

definition Size :: "SparseSet \<Rightarrow> int" where
  "Size ss = size_f ss"

subsection \<open>swap, Remove, Insert, Clear\<close>

text \<open>
  The mutating methods return the result of the call together with the state the call
  leaves behind, also when the call panics part of the way through.
\<close>

definition swap :: "int \<Rightarrow> int \<Rightarrow> SparseSet \<Rightarrow> unit result \<times> SparseSet" where
  "swap p1 p2 ss =
     (if p1 = p2 then (Returns (), ss)
      else if \<not> in_range p1 (values_f ss) then (Panics, ss)
      else if \<not> in_range p2 (values_f ss) then (Panics, ss)
      else
        let v1 = values_f ss ! nat p1;
            v2 = values_f ss ! nat p2;
            ss1 = ss\<lparr>values_f := (values_f ss)[nat p1 := v2]\<rparr>;
            ss2 = ss1\<lparr>values_f := (values_f ss1)[nat p2 := v1]\<rparr>
        in if \<not> in_range v1 (positions_f ss2) then (Panics, ss2)
           else
             let ss3 = ss2\<lparr>positions_f := (positions_f ss2)[nat v1 := p2]\<rparr>
             in if \<not> in_range v2 (positions_f ss3) then (Panics, ss3)
                else (Returns (), ss3\<lparr>positions_f := (positions_f ss3)[nat v2 := p1]\<rparr>))"

definition Remove :: "int \<Rightarrow> SparseSet \<Rightarrow> error option result \<times> SparseSet" where
  "Remove elem ss =
     (if elem \<ge> N ss then (Returns (Some (OutOfRange elem (N ss))), ss)
      else if \<not> in_range elem (positions_f ss) then (Panics, ss)
      else
        let p = positions_f ss ! nat elem;
            ss1 = ss\<lparr>size_f := size_f ss - 1\<rparr>
        in if p \<ge> size_f ss1 then (Returns None, ss1)
           else (case swap p (size_f ss1) ss1 of
                   (Panics, ss2) \<Rightarrow> (Panics, ss2)
                 | (Returns u, ss2) \<Rightarrow> (Returns None, ss2)))"

definition Insert :: "int \<Rightarrow> SparseSet \<Rightarrow> error option result \<times> SparseSet" where
  "Insert elem ss =
     (if elem \<ge> N ss then (Returns (Some (OutOfRange elem (N ss))), ss)
      else if \<not> in_range elem (positions_f ss) then (Panics, ss)
      else
        let p = positions_f ss ! nat elem
        in if p < size_f ss then (Returns None, ss)
           else (case swap p (size_f ss) ss of
                   (Panics, ss1) \<Rightarrow> (Panics, ss1)
                 | (Returns u, ss1) \<Rightarrow> (Returns None, ss1\<lparr>size_f := size_f ss1 + 1\<rparr>)))"

definition Clear :: "SparseSet \<Rightarrow> SparseSet" where
  "Clear ss = ss\<lparr>size_f := 0\<rparr>"

subsection \<open>Content, Absent\<close>

text \<open>
  The slice expressions \<^verbatim>\<open>ss.values[:ss.size]\<close> and \<^verbatim>\<open>ss.values[ss.size:]\<close> panic
  unless \<open>0 \<le> size \<le> cap(values)\<close>. The slice returned shares the storage of
  \<^verbatim>\<open>values\<close>; the model returns its elements at the time of the call.
\<close>

definition Content :: "SparseSet \<Rightarrow> int list result" where
  "Content ss =
     (if 0 \<le> size_f ss \<and> size_f ss \<le> int (length (values_f ss))
      then Returns (take (nat (size_f ss)) (values_f ss))
      else Panics)"

definition Absent :: "SparseSet \<Rightarrow> int list result" where
  "Absent ss =
     (if 0 \<le> size_f ss \<and> size_f ss \<le> int (length (values_f ss))
      then Returns (drop (nat (size_f ss)) (values_f ss))
      else Panics)"

subsection \<open>Call sequences\<close>

text \<open>
  The states a program can bring a set into: the set that \<^verbatim>\<open>New\<close> returns, and the
  state left by a call of \<^verbatim>\<open>Insert\<close> or \<^verbatim>\<open>Remove\<close> with an element of
  \<open>[0, N)\<close>, or of \<^verbatim>\<open>Clear\<close>, on such a state. The state left by a call that
  panics counts too, since a Go program may recover from the panic and go on.
\<close>

inductive reachable :: "SparseSet \<Rightarrow> bool" where
  reach_New: "New n = Returns ss \<Longrightarrow> reachable ss"
| reach_Insert:
    "reachable ss \<Longrightarrow> 0 \<le> elem \<Longrightarrow> elem < N ss \<Longrightarrow> Insert elem ss = (r, ss') \<Longrightarrow> reachable ss'"
| reach_Remove:
    "reachable ss \<Longrightarrow> 0 \<le> elem \<Longrightarrow> elem < N ss \<Longrightarrow> Remove elem ss = (r, ss') \<Longrightarrow> reachable ss'"
| reach_Clear: "reachable ss \<Longrightarrow> reachable (Clear ss)"

text \<open>
  \<open>insert_all es ss\<close> calls \<^verbatim>\<open>Insert\<close> on the elements of \<open>es\<close> from left to
  right and stops at the first call that does not return \<^verbatim>\<open>nil\<close>.
\<close>

fun insert_all :: "int list \<Rightarrow> SparseSet \<Rightarrow> error option result \<times> SparseSet" where
  "insert_all [] ss = (Returns None, ss)"
| "insert_all (e # es) ss =
     (case Insert e ss of
        (r, ss') \<Rightarrow> if r = Returns None then insert_all es ss' else (r, ss'))"

subsection \<open>The invariants of the data model\<close>

text \<open>
  \<open>inverse_on xs ys\<close>: every entry of \<open>xs\<close> is an index of \<open>ys\<close>, and \<open>ys\<close> maps it
  back to where it stands in \<open>xs\<close>. The two slices are mutual inverses when they have
  the same length and each is the inverse of the other; both are then permutations of
  \<open>[0, N)\<close>.
\<close>

definition inverse_on :: "int list \<Rightarrow> int list \<Rightarrow> bool" where
  "inverse_on xs ys =
     (\<forall>i \<in> {0..<length xs}. in_range (xs ! i) ys \<and> ys ! nat (xs ! i) = int i)"

definition mutual_inverse :: "SparseSet \<Rightarrow> bool" where
  "mutual_inverse ss =
     (length (positions_f ss) = length (values_f ss) \<and>
      inverse_on (values_f ss) (positions_f ss) \<and>
      inverse_on (positions_f ss) (values_f ss))"

definition partitions_domain :: "SparseSet \<Rightarrow> bool" where
  "partitions_domain ss =
     (case (Content ss, Absent ss) of
        (Returns c, Returns a) \<Rightarrow> set c \<union> set a = {0..<N ss} \<and> set c \<inter> set a = {}
      | _ \<Rightarrow> False)"

definition invariants :: "SparseSet \<Rightarrow> bool" where
  "invariants ss =
     (mutual_inverse ss \<and> 0 \<le> size_f ss \<and> size_f ss \<le> N ss \<and> partitions_domain ss)"

text \<open>
  What every reachable state satisfies in fact: the slices are mutual inverses and
  \<open>size\<close> does not exceed \<open>N\<close>; \<open>size\<close> may be negative.
\<close>

definition reach_inv :: "SparseSet \<Rightarrow> bool" where
  "reach_inv ss = (mutual_inverse ss \<and> size_f ss \<le> N ss)"

text \<open>\<open>swapped xs i j\<close> is \<open>xs\<close> with the entries at \<open>i\<close> and \<open>j\<close> exchanged.\<close>

definition swapped :: "'a list \<Rightarrow> nat \<Rightarrow> nat \<Rightarrow> 'a list" where
  "swapped xs i j = xs[i := xs ! j, j := xs ! i]"


section \<open>Construction\<close>

lemma New_loop_closed:
  "0 \<le> i \<Longrightarrow> i \<le> n \<Longrightarrow> length (values_f ss) = nat n \<Longrightarrow> length (positions_f ss) = nat n \<Longrightarrow>
   New_loop i n ss =
     Returns (ss\<lparr>values_f := take (nat i) (values_f ss) @ map int [nat i..<nat n],
                positions_f := take (nat i) (positions_f ss) @ map int [nat i..<nat n]\<rparr>)"
proof (induction i n ss rule: New_loop.induct)
  case (1 i n ss)
  show ?case
  proof (cases "i < n")
    case False
    with "1.prems" have "i = n" by simp
    with "1.prems" show ?thesis by (subst New_loop.simps) simp
  next
    case True
    let ?ss' = "ss\<lparr>values_f := (values_f ss)[nat i := i],
                   positions_f := (positions_f ss)[nat i := i]\<rparr>"
    have rng: "in_range i (values_f ss)" "in_range i (positions_f ss)"
      using True "1.prems" by (simp_all add: in_range_def)
    have Suc: "nat (i + 1) = Suc (nat i)" using "1.prems" by simp
    have lt: "nat i < nat n" using True "1.prems" by simp
    have IH: "New_loop (i + 1) n ?ss' =
       Returns (?ss'\<lparr>values_f := take (nat (i + 1)) (values_f ?ss') @ map int [nat (i + 1)..<nat n],
                positions_f := take (nat (i + 1)) (positions_f ?ss') @ map int [nat (i + 1)..<nat n]\<rparr>)"
      using "1.IH" [OF True] rng True "1.prems" by simp
    have tk: "\<And>xs. length xs = nat n \<Longrightarrow>
        take (Suc (nat i)) (xs[nat i := i]) @ map int [Suc (nat i)..<nat n] =
        take (nat i) xs @ map int [nat i..<nat n]"
      using lt "1.prems"(1) by (simp add: take_Suc_conv_app_nth upt_conv_Cons)
    have "New_loop i n ss = New_loop (i + 1) n ?ss'"
      using True rng by (subst New_loop.simps) simp
    also note IH
    finally show ?thesis using tk "1.prems" by (simp add: Suc)
  qed
qed

lemma New_closed:
  "0 \<le> n \<Longrightarrow>
   New n = Returns \<lparr>size_f = 0, values_f = map int [0..<nat n], positions_f = map int [0..<nat n]\<rparr>"
  by (simp add: New_def New_loop_closed)

text \<open>
  C6. \<^verbatim>\<open>New(n)\<close> with \<open>n \<ge> 0\<close> returns a set with \<open>size = 0\<close> whose two slices have
  length \<open>n\<close> and hold \<open>values[i] = i\<close> and \<open>positions[i] = i\<close> at every index
  \<open>i\<close> of \<open>[0, n)\<close>; with a negative \<open>n\<close> it panics and returns no set.
\<close>

theorem New_spec:
  "(n < 0 \<longrightarrow> New n = Panics) \<and>
   (0 \<le> n \<longrightarrow>
      (\<exists>ss. New n = Returns ss \<and> size_f ss = 0 \<and> N ss = n \<and>
            length (positions_f ss) = length (values_f ss) \<and>
            (\<forall>i. 0 \<le> i \<and> i < n \<longrightarrow> values_f ss ! nat i = i \<and> positions_f ss ! nat i = i)))"
proof (intro conjI impI)
  assume "n < 0"
  then show "New n = Panics" by (simp add: New_def)
next
  assume n: "0 \<le> n"
  let ?ss = "\<lparr>size_f = 0, values_f = map int [0..<nat n], positions_f = map int [0..<nat n]\<rparr>"
  have "New n = Returns ?ss" using n by (rule New_closed)
  moreover have "size_f ?ss = 0" by simp
  moreover have "N ?ss = n" using n by (simp add: N_def)
  moreover have "length (positions_f ?ss) = length (values_f ?ss)" by simp
  moreover have "\<forall>i. 0 \<le> i \<and> i < n \<longrightarrow> values_f ?ss ! nat i = i \<and> positions_f ?ss ! nat i = i"
    by simp
  ultimately show "\<exists>ss. New n = Returns ss \<and> size_f ss = 0 \<and> N ss = n \<and>
            length (positions_f ss) = length (values_f ss) \<and>
            (\<forall>i. 0 \<le> i \<and> i < n \<longrightarrow> values_f ss ! nat i = i \<and> positions_f ss ! nat i = i)"
    by blast
qed

theorem New_spec_witness:
  "New (-1) = Panics \<and>
   (\<exists>ss. New 3 = Returns ss \<and> size_f ss = 0 \<and> N ss = 3 \<and>
         values_f ss ! 2 = 2 \<and> positions_f ss ! 2 = 2)"
proof -
  have neg: "(-1::int) < 0" and pos: "(0::int) \<le> 3" by simp_all
  from New_spec [of "-1"] neg have "New (-1) = Panics" by blast
  moreover from New_spec [of 3] pos obtain ss where
    "New 3 = Returns ss" "size_f ss = 0" "N ss = 3"
    "\<forall>i. 0 \<le> i \<and> i < 3 \<longrightarrow> values_f ss ! nat i = i \<and> positions_f ss ! nat i = i"
    by blast
  moreover from spec [OF this(4), of 2]
  have "values_f ss ! 2 = 2 \<and> positions_f ss ! 2 = 2"
    by simp
  ultimately show ?thesis by blast
qed

section \<open>Mutual inverses are permutations\<close>

lemma mutual_inverse_lengths:
  "mutual_inverse ss \<Longrightarrow> length (positions_f ss) = length (values_f ss)"
  by (simp add: mutual_inverse_def)

lemma inverse_on_nth:
  "inverse_on xs ys \<Longrightarrow> i < length xs \<Longrightarrow>
   0 \<le> xs ! i \<and> nat (xs ! i) < length ys \<and> ys ! nat (xs ! i) = int i"
proof -
  assume "inverse_on xs ys" "i < length xs"
  then have "0 \<le> xs ! i \<and> xs ! i < int (length ys) \<and> ys ! nat (xs ! i) = int i"
    by (simp add: inverse_on_def in_range_def)
  then show ?thesis by linarith
qed

lemma inverse_on_distinct:
  assumes "inverse_on xs ys"
  shows "distinct xs"
proof -
  have "xs ! i \<noteq> xs ! j" if "i < length xs" "j < length xs" "i \<noteq> j" for i j
  proof
    assume eq: "xs ! i = xs ! j"
    have "int i = ys ! nat (xs ! i)" using inverse_on_nth [OF assms that(1)] by simp
    also have "\<dots> = int j" using inverse_on_nth [OF assms that(2)] eq by simp
    finally show False using that(3) by simp
  qed
  then show ?thesis by (simp add: distinct_conv_nth)
qed

lemma inverse_on_set:
  assumes xy: "inverse_on xs ys" and yx: "inverse_on ys xs"
  shows "set xs = {0..<int (length ys)}"
proof (intro set_eqI iffI)
  fix v assume "v \<in> set xs"
  then obtain i where "i < length xs" "xs ! i = v" by (auto simp: in_set_conv_nth)
  with inverse_on_nth [OF xy, of i] show "v \<in> {0..<int (length ys)}" by auto
next
  fix v assume "v \<in> {0..<int (length ys)}"
  then have v: "0 \<le> v" "nat v < length ys" by auto
  from inverse_on_nth [OF yx v(2)]
  have "nat (ys ! nat v) < length xs" "xs ! nat (ys ! nat v) = v" using v(1) by auto
  then show "v \<in> set xs" by (metis nth_mem)
qed

lemma mutual_inverse_perm:
  "mutual_inverse ss \<Longrightarrow> distinct (values_f ss) \<and> set (values_f ss) = {0..<N ss}"
  using inverse_on_distinct [of "values_f ss" "positions_f ss"]
    inverse_on_set [of "values_f ss" "positions_f ss"]
  by (simp add: mutual_inverse_def N_def)

lemma inverse_on_inj:
  assumes "inverse_on xs ys" "i < length xs" "j < length xs" "xs ! i = xs ! j"
  shows "i = j"
proof -
  have "int i = ys ! nat (xs ! i)" using inverse_on_nth [OF assms(1,2)] by simp
  also have "\<dots> = int j" using inverse_on_nth [OF assms(1,3)] assms(4) by simp
  finally show ?thesis by simp
qed

lemma swapped_nth:
  "i < length xs \<Longrightarrow> j < length xs \<Longrightarrow> k < length xs \<Longrightarrow>
   swapped xs i j ! k = (if k = j then xs ! i else if k = i then xs ! j else xs ! k)"
  by (simp add: swapped_def nth_list_update)

lemma length_swapped [simp]: "length (swapped xs i j) = length xs"
  by (simp add: swapped_def)

lemma in_range_nat: "in_range v xs \<longleftrightarrow> 0 \<le> v \<and> nat v < length xs"
  by (auto simp: in_range_def)

lemma inverse_on_swapped:
  assumes xy: "inverse_on xs ys" and len: "length ys = length xs"
    and i: "i < length xs" and j: "j < length xs"
  shows "inverse_on (swapped xs i j) (ys[nat (xs ! i) := int j, nat (xs ! j) := int i])"
proof -
  let ?ys' = "ys[nat (xs ! i) := int j, nat (xs ! j) := int i]"
  note I = inverse_on_nth [OF xy i] and J = inverse_on_nth [OF xy j]
  have "in_range (swapped xs i j ! k) ?ys' \<and> ?ys' ! nat (swapped xs i j ! k) = int k"
    if k: "k < length xs" for k
  proof -
    note K = inverse_on_nth [OF xy k]
    consider "k = j" | "k \<noteq> j" "k = i" | "k \<noteq> j" "k \<noteq> i" by blast
    then show ?thesis
    proof cases
      case 1
      have "swapped xs i j ! k = xs ! i" using 1 i j by (simp add: swapped_nth)
      moreover have "i \<noteq> j \<Longrightarrow> nat (xs ! i) \<noteq> nat (xs ! j)"
        using inverse_on_inj [OF xy i j] I J by auto
      ultimately show ?thesis using 1 I J by (auto simp: in_range_nat nth_list_update)
    next
      case 2
      have "swapped xs i j ! k = xs ! j" using 2 i j by (simp add: swapped_nth)
      then show ?thesis using 2 I J by (simp add: in_range_nat)
    next
      case 3
      have "swapped xs i j ! k = xs ! k" using 3 i j k by (simp add: swapped_nth)
      moreover have "nat (xs ! k) \<noteq> nat (xs ! i)" "nat (xs ! k) \<noteq> nat (xs ! j)"
        using inverse_on_inj [OF xy k i] inverse_on_inj [OF xy k j] 3 I J K by auto
      ultimately show ?thesis using K by (simp add: in_range_nat)
    qed
  qed
  then show ?thesis by (simp add: inverse_on_def)
qed

lemma inverse_on_swapped_conv:
  assumes xy: "inverse_on xs ys" and yx: "inverse_on ys xs" and len: "length ys = length xs"
    and i: "i < length xs" and j: "j < length xs"
  shows "inverse_on (ys[nat (xs ! i) := int j, nat (xs ! j) := int i]) (swapped xs i j)"
proof -
  let ?ys' = "ys[nat (xs ! i) := int j, nat (xs ! j) := int i]"
  note I = inverse_on_nth [OF xy i] and J = inverse_on_nth [OF xy j]
  have "in_range (?ys' ! v) (swapped xs i j) \<and> swapped xs i j ! nat (?ys' ! v) = int v"
    if v: "v < length ys" for v
  proof -
    note V = inverse_on_nth [OF yx v]
    consider "v = nat (xs ! j)" | "v \<noteq> nat (xs ! j)" "v = nat (xs ! i)"
      | "v \<noteq> nat (xs ! j)" "v \<noteq> nat (xs ! i)" by blast
    then show ?thesis
    proof cases
      case 1
      have "?ys' ! v = int i" using 1 J len by simp
      then show ?thesis using 1 i j J by (simp add: in_range_nat swapped_nth)
    next
      case 2
      have "?ys' ! v = int j" using 2 I len by simp
      then show ?thesis using 2 i j I by (simp add: in_range_nat swapped_nth)
    next
      case 3
      have "?ys' ! v = ys ! v" using 3 by simp
      moreover have "nat (ys ! v) \<noteq> i" "nat (ys ! v) \<noteq> j" using 3 V by auto
      ultimately show ?thesis using V i j by (simp add: in_range_nat swapped_nth)
    qed
  qed
  then show ?thesis by (simp add: inverse_on_def)
qed

section \<open>The swap preserves the mutual inverses\<close>

lemma swapped_same [simp]: "swapped xs i i = xs"
  by (simp add: swapped_def)

lemma mutual_inverse_values_nth:
  assumes "mutual_inverse ss" "in_range p (values_f ss)"
  shows "in_range (values_f ss ! nat p) (positions_f ss)"
    and "positions_f ss ! nat (values_f ss ! nat p) = p"
  using assms inverse_on_nth [of "values_f ss" "positions_f ss" "nat p"]
  by (auto simp: mutual_inverse_def in_range_nat)

lemma mutual_inverse_positions_nth:
  assumes "mutual_inverse ss" "in_range v (positions_f ss)"
  shows "in_range (positions_f ss ! nat v) (values_f ss)"
    and "values_f ss ! nat (positions_f ss ! nat v) = v"
  using assms inverse_on_nth [of "positions_f ss" "values_f ss" "nat v"]
  by (auto simp: mutual_inverse_def in_range_nat)

lemma swap_closed:
  assumes mi: "mutual_inverse ss"
    and p1: "in_range p1 (values_f ss)" and p2: "in_range p2 (values_f ss)"
  shows "swap p1 p2 ss =
    (Returns (),
     ss\<lparr>values_f := swapped (values_f ss) (nat p1) (nat p2),
        positions_f := (positions_f ss)[nat (values_f ss ! nat p1) := p2,
                                        nat (values_f ss ! nat p2) := p1]\<rparr>)"
proof (cases "p1 = p2")
  case True
  have "(positions_f ss)[nat (values_f ss ! nat p1) := p1] = positions_f ss"
    using mutual_inverse_values_nth(2) [OF mi p1] by (metis list_update_id)
  then show ?thesis using True by (simp add: swap_def)
next
  case False
  note V1 = mutual_inverse_values_nth [OF mi p1] and V2 = mutual_inverse_values_nth [OF mi p2]
  have ne: "nat p1 \<noteq> nat p2" using False p1 p2 by (auto simp: in_range_def)
  have nth1: "(values_f ss)[nat p1 := values_f ss ! nat p2, nat p2 := values_f ss ! nat p1] =
     swapped (values_f ss) (nat p1) (nat p2)"
    by (simp add: swapped_def)
  show ?thesis
    using False p1 p2 V1(1) V2(1) ne
    by (simp add: swap_def Let_def in_range_def nth1)
qed

lemma swap_mutual_inverse:
  assumes mi: "mutual_inverse ss"
    and p1: "in_range p1 (values_f ss)" and p2: "in_range p2 (values_f ss)"
  shows "mutual_inverse (snd (swap p1 p2 ss))"
proof -
  have i: "nat p1 < length (values_f ss)" and j: "nat p2 < length (values_f ss)"
    using p1 p2 by (simp_all add: in_range_nat)
  have p: "0 \<le> p1" "0 \<le> p2" using p1 p2 by (simp_all add: in_range_def)
  from mi have xy: "inverse_on (values_f ss) (positions_f ss)"
    and yx: "inverse_on (positions_f ss) (values_f ss)"
    and len: "length (positions_f ss) = length (values_f ss)"
    by (simp_all add: mutual_inverse_def)
  show ?thesis
    using inverse_on_swapped [OF xy len i j] inverse_on_swapped_conv [OF xy yx len i j] len p
    by (simp add: swap_closed [OF mi p1 p2] mutual_inverse_def)
qed

lemma swap_Panics:
  assumes mi: "mutual_inverse ss" and sw: "swap p1 p2 ss = (Panics, ss')"
  shows "ss' = ss"
proof (cases "in_range p1 (values_f ss) \<and> in_range p2 (values_f ss)")
  case True
  with swap_closed [OF mi] sw show ?thesis by simp
next
  case False
  with sw show ?thesis by (auto simp: swap_def split: if_splits)
qed

section \<open>Insert and Remove in closed form\<close>

lemma mutual_inverse_size [simp]: "mutual_inverse (ss\<lparr>size_f := k\<rparr>) = mutual_inverse ss"
  by (simp add: mutual_inverse_def)

lemma N_size [simp]: "N (ss\<lparr>size_f := k\<rparr>) = N ss"
  by (simp add: N_def)

lemma elem_in_range:
  "mutual_inverse ss \<Longrightarrow> 0 \<le> elem \<Longrightarrow> elem < N ss \<Longrightarrow> in_range elem (positions_f ss)"
  by (simp add: mutual_inverse_def N_def in_range_def)

lemma Insert_present:
  assumes "mutual_inverse ss" "0 \<le> elem" "elem < N ss" "positions_f ss ! nat elem < size_f ss"
  shows "Insert elem ss = (Returns None, ss)"
  using assms elem_in_range [OF assms(1-3)] by (simp add: Insert_def)

lemma Insert_absent:
  assumes mi: "mutual_inverse ss" and e: "0 \<le> elem" "elem < N ss"
    and ab: "\<not> positions_f ss ! nat elem < size_f ss" and sz: "0 \<le> size_f ss"
  shows "Insert elem ss =
    (Returns None,
     ss\<lparr>values_f := swapped (values_f ss) (nat (positions_f ss ! nat elem)) (nat (size_f ss)),
        positions_f := (positions_f ss)[nat elem := size_f ss,
                         nat (values_f ss ! nat (size_f ss)) := positions_f ss ! nat elem],
        size_f := size_f ss + 1\<rparr>)"
proof -
  let ?p = "positions_f ss ! nat elem"
  note er = elem_in_range [OF mi e]
  note P = mutual_inverse_positions_nth [OF mi er]
  have s: "in_range (size_f ss) (values_f ss)" using P(1) ab sz by (simp add: in_range_def)
  show ?thesis
    using e er ab P(2) by (simp add: Insert_def Let_def swap_closed [OF mi P(1) s])
qed

lemma Insert_negative_size:
  assumes mi: "mutual_inverse ss" and e: "0 \<le> elem" "elem < N ss" and sz: "size_f ss < 0"
  shows "Insert elem ss = (Panics, ss)"
proof -
  note er = elem_in_range [OF mi e]
  note P = mutual_inverse_positions_nth [OF mi er]
  have "positions_f ss ! nat elem \<noteq> size_f ss" "\<not> positions_f ss ! nat elem < size_f ss"
    using P(1) sz by (simp_all add: in_range_def)
  moreover have "\<not> in_range (size_f ss) (values_f ss)" using sz by (simp add: in_range_def)
  ultimately show ?thesis using e er P(1) by (simp add: Insert_def swap_def)
qed



lemma inverse_on_identity: "inverse_on (map int [0..<n]) (map int [0..<n])"
  by (simp add: inverse_on_def in_range_def)

lemma New_reach_inv: "New n = Returns ss \<Longrightarrow> reach_inv ss \<and> size_f ss = 0"
proof -
  assume a: "New n = Returns ss"
  then have "0 \<le> n" by (auto simp: New_def split: if_splits)
  from New_closed [OF this] a show ?thesis
    by (auto simp: reach_inv_def mutual_inverse_def inverse_on_identity N_def)
qed

lemma Insert_reach_inv:
  assumes inv: "reach_inv ss" and e: "0 \<le> elem" "elem < N ss" and ins: "Insert elem ss = (r, ss')"
  shows "reach_inv ss'"
proof -
  from inv have mi: "mutual_inverse ss" and sz: "size_f ss \<le> N ss" by (simp_all add: reach_inv_def)
  note er = elem_in_range [OF mi e]
  note P = mutual_inverse_positions_nth [OF mi er]
  consider "positions_f ss ! nat elem < size_f ss"
    | "\<not> positions_f ss ! nat elem < size_f ss" "size_f ss < 0"
    | "\<not> positions_f ss ! nat elem < size_f ss" "0 \<le> size_f ss" by linarith
  then show ?thesis
  proof cases
    case 1
    from Insert_present [OF mi e 1] ins inv show ?thesis by simp
  next
    case 2
    from Insert_negative_size [OF mi e 2(2)] ins inv show ?thesis by simp
  next
    case 3
    have s: "in_range (size_f ss) (values_f ss)" using P(1) 3 by (simp add: in_range_def)
    have "mutual_inverse (snd (swap (positions_f ss ! nat elem) (size_f ss) ss))"
      by (rule swap_mutual_inverse [OF mi P(1) s])
    moreover have "size_f ss + 1 \<le> N ss" using s by (simp add: in_range_def N_def)
    ultimately show ?thesis
      using Insert_absent [OF mi e 3] ins P(2)
      by (auto simp: reach_inv_def swap_closed [OF mi P(1) s] N_def)
  qed
qed



section \<open>Runs on a set of capacity 5\<close>

lemma New_5:
  "New 5 = Returns \<lparr>size_f = 0, values_f = [0, 1, 2, 3, 4], positions_f = [0, 1, 2, 3, 4]\<rparr>"
  by (simp add: New_closed upt_rec)

lemma Remove_3_fresh:
  "Remove 3 \<lparr>size_f = 0, values_f = [0, 1, 2, 3, 4], positions_f = [0, 1, 2, 3, 4]\<rparr> =
     (Returns None, \<lparr>size_f = - 1, values_f = [0, 1, 2, 3, 4], positions_f = [0, 1, 2, 3, 4]\<rparr>)"
  by (simp add: Remove_def N_def in_range_def)

lemma negative_elem_Panics:
  "elem < 0 \<Longrightarrow> Insert elem ss = (Panics, ss) \<and> Remove elem ss = (Panics, ss)"
  by (simp add: Insert_def Remove_def N_def in_range_def)

lemma elem_above_range:
  "N ss \<le> elem \<Longrightarrow>
   Insert elem ss = (Returns (Some (OutOfRange elem (N ss))), ss) \<and>
   Remove elem ss = (Returns (Some (OutOfRange elem (N ss))), ss)"
  by (simp add: Insert_def Remove_def)

section \<open>Membership and the two views\<close>


lemma Contains_closed:
  "mutual_inverse ss \<Longrightarrow> 0 \<le> elem \<Longrightarrow> elem < N ss \<Longrightarrow>
   Contains ss elem = Returns (positions_f ss ! nat elem < size_f ss)"
  by (simp add: Contains_def elem_in_range)

lemma position_of_value:
  assumes mi: "mutual_inverse ss" and k: "k < length (values_f ss)"
  shows "0 \<le> values_f ss ! k" "values_f ss ! k < N ss"
    "positions_f ss ! nat (values_f ss ! k) = int k"
proof -
  have r: "in_range (int k) (values_f ss)" using k by (simp add: in_range_def)
  from mutual_inverse_values_nth [OF mi r] mi
  show "0 \<le> values_f ss ! k" "values_f ss ! k < N ss"
    "positions_f ss ! nat (values_f ss ! k) = int k"
    by (simp_all add: in_range_def N_def mutual_inverse_def)
qed





section \<open>What a successful Insert leaves behind\<close>

lemma Insert_success:
  assumes inv: "reach_inv ss" and e: "0 \<le> elem" "elem < N ss"
    and ins: "Insert elem ss = (Returns None, ss')"
  shows "reach_inv ss'" "N ss' = N ss" "0 < size_f ss'" "positions_f ss' ! nat elem < size_f ss'"
proof -
  from inv have mi: "mutual_inverse ss" by (simp add: reach_inv_def)
  note P = mutual_inverse_positions_nth [OF mi elem_in_range [OF mi e]]
  show "reach_inv ss'" by (rule Insert_reach_inv [OF inv e ins])
  then have mi': "mutual_inverse ss'" by (simp add: reach_inv_def)
  consider "positions_f ss ! nat elem < size_f ss"
    | "\<not> positions_f ss ! nat elem < size_f ss" "size_f ss < 0"
    | "\<not> positions_f ss ! nat elem < size_f ss" "0 \<le> size_f ss" by linarith
  then have "N ss' = N ss \<and> 0 < size_f ss' \<and> positions_f ss' ! nat elem < size_f ss'"
  proof cases
    case 1
    with Insert_present [OF mi e 1] ins P(1) show ?thesis by (simp add: in_range_def)
  next
    case 2
    with Insert_negative_size [OF mi e 2(2)] ins show ?thesis by simp
  next
    case 3
    let ?p = "nat (positions_f ss ! nat elem)" and ?s = "nat (size_f ss)"
    have lt: "?p < length (values_f ss)" "?s < length (values_f ss)"
      using P(1) 3 by (simp_all add: in_range_def)
    from Insert_absent [OF mi e 3] ins
    have ss': "ss' = ss\<lparr>values_f := swapped (values_f ss) ?p ?s,
        positions_f := (positions_f ss)[nat elem := size_f ss,
                         nat (values_f ss ! ?s) := positions_f ss ! nat elem],
        size_f := size_f ss + 1\<rparr>" by simp
    have v: "values_f ss' ! ?s = elem" using lt P(2) by (simp add: ss' swapped_nth)
    have "?s < length (values_f ss')" using lt by (simp add: ss')
    from position_of_value(3) [OF mi' this] v 3
    have "positions_f ss' ! nat elem = size_f ss" by simp
    then show ?thesis using 3 by (simp add: ss' N_def)
  qed
  then show "N ss' = N ss" "0 < size_f ss'" "positions_f ss' ! nat elem < size_f ss'"
    by simp_all
qed


section \<open>Insert on an absent element\<close>

lemma swapped_positions:
  assumes mi: "mutual_inverse ss" and e: "0 \<le> elem" "elem < N ss"
    and s: "in_range (size_f ss) (values_f ss)"
  shows "swapped (positions_f ss) (nat elem) (nat (values_f ss ! nat (size_f ss))) =
         (positions_f ss)[nat elem := size_f ss,
            nat (values_f ss ! nat (size_f ss)) := positions_f ss ! nat elem]"
  using mutual_inverse_values_nth(2) [OF mi s] by (simp add: swapped_def)

lemma Insert_absent_result:
  assumes mi: "mutual_inverse ss" and e: "0 \<le> elem" "elem < N ss"
    and ab: "\<not> positions_f ss ! nat elem < size_f ss"
    and ins: "Insert elem ss = (Returns None, ss')"
  shows "0 \<le> size_f ss" "size_f ss' = size_f ss + 1" "values_f ss' ! nat (size_f ss) = elem"
    "take (nat (size_f ss)) (values_f ss') = take (nat (size_f ss)) (values_f ss)"
proof -
  note P = mutual_inverse_positions_nth [OF mi elem_in_range [OF mi e]]
  show sz: "0 \<le> size_f ss"
  proof (rule ccontr)
    assume "\<not> 0 \<le> size_f ss"
    then have "size_f ss < 0" by simp
    from Insert_negative_size [OF mi e this] ins show False by simp
  qed
  let ?p = "nat (positions_f ss ! nat elem)" and ?s = "nat (size_f ss)"
  have lt: "?p < length (values_f ss)" "?s < length (values_f ss)" "?s \<le> ?p"
    using P(1) ab sz by (simp_all add: in_range_def)
  from Insert_absent [OF mi e ab sz] ins
  have ss': "ss' = ss\<lparr>values_f := swapped (values_f ss) ?p ?s,
      positions_f := (positions_f ss)[nat elem := size_f ss,
                       nat (values_f ss ! ?s) := positions_f ss ! nat elem],
      size_f := size_f ss + 1\<rparr>" by simp
  show "size_f ss' = size_f ss + 1" by (simp add: ss')
  show "values_f ss' ! ?s = elem" using lt P(2) by (simp add: ss' swapped_nth)
  show "take ?s (values_f ss') = take ?s (values_f ss)"
    using lt by (simp add: ss' swapped_def)
qed

lemma Insert_keeps_absent:
  assumes inv: "reach_inv ss" and e: "0 \<le> elem" "elem < N ss"
    and ab: "\<not> positions_f ss ! nat elem < size_f ss"
    and ins: "Insert elem ss = (Returns None, ss')"
    and e': "0 \<le> x" "x < N ss" "x \<noteq> elem" and ab': "\<not> positions_f ss ! nat x < size_f ss"
  shows "\<not> positions_f ss' ! nat x < size_f ss'"
proof
  assume lt: "positions_f ss' ! nat x < size_f ss'"
  from inv have mi: "mutual_inverse ss" by (simp add: reach_inv_def)
  note R = Insert_absent_result [OF mi e ab ins]
  note S = Insert_success [OF inv e ins]
  from S(1) have mi': "mutual_inverse ss'" by (simp add: reach_inv_def)
  have x': "0 \<le> x" "x < N ss'" using e' S(2) by simp_all
  note Q = mutual_inverse_positions_nth [OF mi' elem_in_range [OF mi' x']]
  let ?q = "positions_f ss' ! nat x"
  have q0: "0 \<le> ?q" using Q(1) by (simp add: in_range_def)
  consider "?q = size_f ss" | "?q < size_f ss" using lt R(2) by linarith
  then show False
  proof cases
    case 1
    with Q(2) R(3) e'(3) show False by simp
  next
    case 2
    have "values_f ss ! nat ?q = take (nat (size_f ss)) (values_f ss) ! nat ?q"
      using 2 q0 by simp
    also have "\<dots> = take (nat (size_f ss)) (values_f ss') ! nat ?q" by (simp add: R(4))
    also have "\<dots> = x" using 2 q0 Q(2) by simp
    finally have vx: "values_f ss ! nat ?q = x" .
    have "nat ?q < length (values_f ss)" using Q(1) S(2) unfolding in_range_def N_def by linarith
    from position_of_value(3) [OF mi this] vx q0 have "positions_f ss ! nat x = ?q" by simp
    with 2 ab' show False by simp
  qed
qed

lemma insert_all_absent:
  assumes "reach_inv ss" "0 \<le> size_f ss" "distinct es"
    and "\<forall>e \<in> set es. 0 \<le> e \<and> e < N ss \<and> \<not> positions_f ss ! nat e < size_f ss"
  shows "\<exists>ss'. insert_all es ss = (Returns None, ss') \<and>
           Content ss' = Returns (take (nat (size_f ss)) (values_f ss) @ es)"
  using assms
proof (induction es arbitrary: ss)
  case Nil
  then show ?case by (simp add: Content_def reach_inv_def N_def)
next
  case (Cons e es)
  from Cons.prems(1) have mi: "mutual_inverse ss" by (simp add: reach_inv_def)
  from Cons.prems(4) have e: "0 \<le> e" "e < N ss" and ab: "\<not> positions_f ss ! nat e < size_f ss"
    by simp_all
  from Insert_absent [OF mi e ab Cons.prems(2)] obtain ss1 where
    ins: "Insert e ss = (Returns None, ss1)" by blast
  note R = Insert_absent_result [OF mi e ab ins]
  note S = Insert_success [OF Cons.prems(1) e ins]
  have sz1: "0 \<le> size_f ss1" using S(3) by simp
  have d: "distinct es" using Cons.prems(3) by simp
  have rest: "\<forall>x \<in> set es. 0 \<le> x \<and> x < N ss1 \<and> \<not> positions_f ss1 ! nat x < size_f ss1"
  proof
    fix x assume x: "x \<in> set es"
    with Cons.prems(3,4) have "0 \<le> x" "x < N ss" "x \<noteq> e" "\<not> positions_f ss ! nat x < size_f ss"
      by auto
    from Insert_keeps_absent [OF Cons.prems(1) e ab ins this] this(1,2) S(2)
    show "0 \<le> x \<and> x < N ss1 \<and> \<not> positions_f ss1 ! nat x < size_f ss1" by simp
  qed
  from Cons.IH [OF S(1) sz1 d rest] obtain ss' where
    all: "insert_all es ss1 = (Returns None, ss')"
    and c: "Content ss' = Returns (take (nat (size_f ss1)) (values_f ss1) @ es)" by blast
  have len: "nat (size_f ss) < length (values_f ss1)"
    using S(1) R(1,2) unfolding reach_inv_def N_def by linarith
  have "nat (size_f ss1) = Suc (nat (size_f ss))" using R(1,2) by simp
  then have "take (nat (size_f ss1)) (values_f ss1) = take (nat (size_f ss)) (values_f ss) @ [e]"
    using len R(3,4) by (simp add: take_Suc_conv_app_nth)
  with c all ins show ?case by simp
qed

section \<open>The claims\<close>

text \<open>
  C1. The claim: \<^verbatim>\<open>Remove(elem)\<close> of an element of \<open>[0, N)\<close> that is absent returns
  \<^verbatim>\<open>nil\<close> and leaves the whole state as it was. The code subtracts one from
  \<^verbatim>\<open>size\<close> before it looks whether the element is in the set at all: on the set
  that \<^verbatim>\<open>New(5)\<close> returns, where 3 is absent, \<^verbatim>\<open>Remove(3)\<close> returns
  \<^verbatim>\<open>nil\<close> and leaves \<^verbatim>\<open>size\<close> at \<open>-1\<close>, which \<^verbatim>\<open>Size()\<close> then reports.
\<close>

theorem Remove_absent_changes_size:
  "New 5 = Returns \<lparr>size_f = 0, values_f = [0, 1, 2, 3, 4], positions_f = [0, 1, 2, 3, 4]\<rparr> \<and>
   Contains \<lparr>size_f = 0, values_f = [0, 1, 2, 3, 4], positions_f = [0, 1, 2, 3, 4]\<rparr> 3 = Returns False \<and>
   Remove 3 \<lparr>size_f = 0, values_f = [0, 1, 2, 3, 4], positions_f = [0, 1, 2, 3, 4]\<rparr> =
     (Returns None, \<lparr>size_f = - 1, values_f = [0, 1, 2, 3, 4], positions_f = [0, 1, 2, 3, 4]\<rparr>) \<and>
   Size \<lparr>size_f = - 1, values_f = [0, 1, 2, 3, 4], positions_f = [0, 1, 2, 3, 4]\<rparr> = - 1"
  using New_5 Remove_3_fresh by (simp add: Contains_def in_range_def Size_def)

text \<open>
  C2. The claim: in every state reachable from \<^verbatim>\<open>New\<close> by calls of \<^verbatim>\<open>Insert\<close>,
  \<^verbatim>\<open>Remove\<close> and \<^verbatim>\<open>Clear\<close> with elements of \<open>[0, N)\<close>, the slices are mutual
  inverses, \<open>0 \<le> size \<le> N\<close>, and \<^verbatim>\<open>Content()\<close> and \<^verbatim>\<open>Absent()\<close> partition
  \<open>[0, N)\<close>. The state that \<^verbatim>\<open>New(5)\<close> followed by \<^verbatim>\<open>Remove(3)\<close> leaves is
  reachable and has \<open>size = -1\<close>; both \<^verbatim>\<open>Content()\<close> and \<^verbatim>\<open>Absent()\<close> panic on
  it. (The other two parts do hold in every reachable state: the slices stay mutual
  inverses and \<open>size \<le> N\<close>, lemma \<open>reachable_reach_inv\<close>.)
\<close>

theorem reachable_breaks_invariants:
  "reachable \<lparr>size_f = - 1, values_f = [0, 1, 2, 3, 4], positions_f = [0, 1, 2, 3, 4]\<rparr> \<and>
   \<not> invariants \<lparr>size_f = - 1, values_f = [0, 1, 2, 3, 4], positions_f = [0, 1, 2, 3, 4]\<rparr> \<and>
   Content \<lparr>size_f = - 1, values_f = [0, 1, 2, 3, 4], positions_f = [0, 1, 2, 3, 4]\<rparr> = Panics \<and>
   Absent \<lparr>size_f = - 1, values_f = [0, 1, 2, 3, 4], positions_f = [0, 1, 2, 3, 4]\<rparr> = Panics"
proof -
  let ?s0 = "\<lparr>size_f = 0, values_f = [0, 1, 2, 3, 4], positions_f = [0, 1, 2, 3, 4]\<rparr>"
  have "reachable ?s0" using New_5 by (rule reach_New)
  moreover have "(0::int) \<le> 3" "3 < N ?s0" by (simp_all add: N_def)
  ultimately have "reachable \<lparr>size_f = - 1, values_f = [0, 1, 2, 3, 4], positions_f = [0, 1, 2, 3, 4]\<rparr>"
    using Remove_3_fresh by (rule reach_Remove)
  then show ?thesis by (simp add: invariants_def Content_def Absent_def)
qed

text \<open>
  C3. The claim: for every \<open>elem\<close> outside \<open>[0, N)\<close>, negative ones included,
  \<^verbatim>\<open>Insert\<close> and \<^verbatim>\<open>Remove\<close> return the out-of-range error and change nothing.
  For \<open>elem \<ge> N\<close> they do (lemma \<open>elem_above_range\<close>). The only test of the code is
  \<^verbatim>\<open>elem >= ss.N()\<close>, so a negative \<open>elem\<close> goes on to \<^verbatim>\<open>ss.positions[elem]\<close>,
  which panics (lemma \<open>negative_elem_Panics\<close>): on the set that \<^verbatim>\<open>New(5)\<close> returns,
  \<^verbatim>\<open>Insert(-1)\<close> and \<^verbatim>\<open>Remove(-1)\<close> panic, with the state unchanged.
\<close>

theorem negative_elem_panics_on_5:
  "Insert (- 1) \<lparr>size_f = 0, values_f = [0, 1, 2, 3, 4], positions_f = [0, 1, 2, 3, 4]\<rparr> =
     (Panics, \<lparr>size_f = 0, values_f = [0, 1, 2, 3, 4], positions_f = [0, 1, 2, 3, 4]\<rparr>) \<and>
   Remove (- 1) \<lparr>size_f = 0, values_f = [0, 1, 2, 3, 4], positions_f = [0, 1, 2, 3, 4]\<rparr> =
     (Panics, \<lparr>size_f = 0, values_f = [0, 1, 2, 3, 4], positions_f = [0, 1, 2, 3, 4]\<rparr>)"
  by (simp add: Insert_def Remove_def N_def in_range_def)



text \<open>
  What \<^verbatim>\<open>Insert\<close> does where \<^verbatim>\<open>size\<close> is not negative. On a state whose slices
  are mutual inverses and whose \<open>size\<close> is at least 0, and for \<open>elem\<close> in \<open>[0, N)\<close>: if
  \<open>positions[elem] < size\<close>, \<^verbatim>\<open>Insert(elem)\<close> returns \<^verbatim>\<open>nil\<close>, leaves the state
  (so \<^verbatim>\<open>size\<close>) unchanged and \<^verbatim>\<open>Contains(elem)\<close> is still true; otherwise it
  returns \<^verbatim>\<open>nil\<close> after the swap of the code and \<^verbatim>\<open>size += 1\<close>: in
  \<^verbatim>\<open>values\<close> the entries at the indices \<open>positions[elem]\<close> and \<open>size\<close> are
  exchanged, in \<^verbatim>\<open>positions\<close> the entries of the two elements that stood there
  (\<open>elem\<close> and \<open>values[size]\<close>) are exchanged, and \<^verbatim>\<open>Contains(elem)\<close> is true
  afterwards.
\<close>

lemma Insert_spec:
  assumes "mutual_inverse ss" and "0 \<le> size_f ss" and "0 \<le> elem" and "elem < N ss"
  shows "(positions_f ss ! nat elem < size_f ss \<longrightarrow>
            Insert elem ss = (Returns None, ss) \<and> Contains ss elem = Returns True) \<and>
         (\<not> positions_f ss ! nat elem < size_f ss \<longrightarrow>
            (\<exists>ss'. Insert elem ss = (Returns None, ss') \<and>
               values_f ss' = swapped (values_f ss) (nat (positions_f ss ! nat elem)) (nat (size_f ss)) \<and>
               positions_f ss' =
                 swapped (positions_f ss) (nat elem) (nat (values_f ss ! nat (size_f ss))) \<and>
               size_f ss' = size_f ss + 1 \<and>
               Contains ss' elem = Returns True))"
proof (rule conjI; rule impI)
  assume pr: "positions_f ss ! nat elem < size_f ss"
  from Insert_present [OF assms(1,3,4) pr] Contains_closed [OF assms(1,3,4)] pr
  show "Insert elem ss = (Returns None, ss) \<and> Contains ss elem = Returns True" by simp
next
  assume ab: "\<not> positions_f ss ! nat elem < size_f ss"
  note mi = assms(1) and e = assms(3,4)
  note P = mutual_inverse_positions_nth [OF mi elem_in_range [OF mi e]]
  have s: "in_range (size_f ss) (values_f ss)" using P(1) ab assms(2) by (simp add: in_range_def)
  then have inv: "reach_inv ss" using mi by (simp add: reach_inv_def in_range_def N_def)
  let ?ss' = "ss\<lparr>values_f := swapped (values_f ss) (nat (positions_f ss ! nat elem)) (nat (size_f ss)),
        positions_f := (positions_f ss)[nat elem := size_f ss,
                         nat (values_f ss ! nat (size_f ss)) := positions_f ss ! nat elem],
        size_f := size_f ss + 1\<rparr>"
  have ins: "Insert elem ss = (Returns None, ?ss')" by (rule Insert_absent [OF mi e ab assms(2)])
  note S = Insert_success [OF inv e ins]
  from S(1) have mi': "mutual_inverse ?ss'" by (simp add: reach_inv_def)
  have "0 \<le> elem" "elem < N ?ss'" using e S(2) by simp_all
  from Contains_closed [OF mi' this] S(4) have "Contains ?ss' elem = Returns True" by simp
  moreover have "positions_f ?ss' =
      swapped (positions_f ss) (nat elem) (nat (values_f ss ! nat (size_f ss)))"
    using swapped_positions [OF mi e s] by simp
  ultimately show "\<exists>ss'. Insert elem ss = (Returns None, ss') \<and>
       values_f ss' = swapped (values_f ss) (nat (positions_f ss ! nat elem)) (nat (size_f ss)) \<and>
       positions_f ss' =
         swapped (positions_f ss) (nat elem) (nat (values_f ss ! nat (size_f ss))) \<and>
       size_f ss' = size_f ss + 1 \<and>
       Contains ss' elem = Returns True"
    using ins by (intro exI [of _ ?ss']) simp
qed

lemma Insert_spec_witness:
  "mutual_inverse \<lparr>size_f = 1, values_f = [2, 1, 0, 3, 4], positions_f = [2, 1, 0, 3, 4]\<rparr> \<and>
   Insert 2 \<lparr>size_f = 1, values_f = [2, 1, 0, 3, 4], positions_f = [2, 1, 0, 3, 4]\<rparr> =
     (Returns None, \<lparr>size_f = 1, values_f = [2, 1, 0, 3, 4], positions_f = [2, 1, 0, 3, 4]\<rparr>) \<and>
   (\<exists>ss'. Insert 4 \<lparr>size_f = 1, values_f = [2, 1, 0, 3, 4], positions_f = [2, 1, 0, 3, 4]\<rparr> =
            (Returns None, ss') \<and>
          values_f ss' = [2, 4, 0, 3, 1] \<and> positions_f ss' = [2, 4, 0, 3, 1] \<and> size_f ss' = 2 \<and>
          Contains ss' 4 = Returns True)"
proof -
  let ?s1 = "\<lparr>size_f = 1, values_f = [2, 1, 0, 3, 4], positions_f = [2, 1, 0, 3, 4]\<rparr>"
  have mi: "mutual_inverse ?s1"
    by (simp add: mutual_inverse_def inverse_on_def in_range_def atLeastLessThan_upt upt_rec)
  have sz: "0 \<le> size_f ?s1" by simp
  have e2: "(0::int) \<le> 2" "2 < N ?s1" and e4: "(0::int) \<le> 4" "4 < N ?s1"
    by (simp_all add: N_def)
  from Insert_spec [OF mi sz e2]
  have "Insert 2 ?s1 = (Returns None, ?s1)" by simp
  moreover from Insert_spec [OF mi sz e4]
  have "\<exists>ss'. Insert 4 ?s1 = (Returns None, ss') \<and>
          values_f ss' = [2, 4, 0, 3, 1] \<and> positions_f ss' = [2, 4, 0, 3, 1] \<and> size_f ss' = 2 \<and>
          Contains ss' 4 = Returns True"
    by (simp add: swapped_def)
  ultimately show ?thesis using mi by blast
qed

text \<open>
  C5. The claim: for every \<open>elem\<close> of \<open>[0, N)\<close>, \<^verbatim>\<open>Insert(elem)\<close> is a no-op that
  returns \<^verbatim>\<open>nil\<close> when \<open>elem\<close> is present, and swaps, adds one to \<^verbatim>\<open>size\<close> and
  makes \<open>elem\<close> present when it is absent. The code does so wherever \<open>size \<ge> 0\<close>
  (lemma \<open>Insert_spec\<close>), but \<^verbatim>\<open>Remove\<close> of an absent element leaves a negative
  \<^verbatim>\<open>size\<close>: the state after \<^verbatim>\<open>New(5)\<close> and \<^verbatim>\<open>Remove(3)\<close> is reachable, its slices
  are mutual inverses, 3 is in range and absent there, and \<^verbatim>\<open>Insert(3)\<close> calls
  \<^verbatim>\<open>swap(3, -1)\<close>, which panics at \<^verbatim>\<open>ss.values[-1]\<close>: nothing is swapped,
  \<^verbatim>\<open>size\<close> stays at \<open>-1\<close> and 3 stays absent.
\<close>

theorem Insert_absent_panics_after_Remove:
  "reachable \<lparr>size_f = - 1, values_f = [0, 1, 2, 3, 4], positions_f = [0, 1, 2, 3, 4]\<rparr> \<and>
   mutual_inverse \<lparr>size_f = - 1, values_f = [0, 1, 2, 3, 4], positions_f = [0, 1, 2, 3, 4]\<rparr> \<and>
   3 < N \<lparr>size_f = - 1, values_f = [0, 1, 2, 3, 4], positions_f = [0, 1, 2, 3, 4]\<rparr> \<and>
   Contains \<lparr>size_f = - 1, values_f = [0, 1, 2, 3, 4], positions_f = [0, 1, 2, 3, 4]\<rparr> 3 = Returns False \<and>
   swap 3 (- 1) \<lparr>size_f = - 1, values_f = [0, 1, 2, 3, 4], positions_f = [0, 1, 2, 3, 4]\<rparr> =
     (Panics, \<lparr>size_f = - 1, values_f = [0, 1, 2, 3, 4], positions_f = [0, 1, 2, 3, 4]\<rparr>) \<and>
   Insert 3 \<lparr>size_f = - 1, values_f = [0, 1, 2, 3, 4], positions_f = [0, 1, 2, 3, 4]\<rparr> =
     (Panics, \<lparr>size_f = - 1, values_f = [0, 1, 2, 3, 4], positions_f = [0, 1, 2, 3, 4]\<rparr>)"
proof -
  let ?s0 = "\<lparr>size_f = 0, values_f = [0, 1, 2, 3, 4], positions_f = [0, 1, 2, 3, 4]\<rparr>"
  let ?neg = "\<lparr>size_f = - 1, values_f = [0, 1, 2, 3, 4], positions_f = [0, 1, 2, 3, 4]\<rparr>"
  have "reachable ?s0" using New_5 by (rule reach_New)
  moreover have "(0::int) \<le> 3" "3 < N ?s0" by (simp_all add: N_def)
  ultimately have r: "reachable ?neg" using Remove_3_fresh by (rule reach_Remove)
  have mi: "mutual_inverse ?neg"
    by (simp add: mutual_inverse_def inverse_on_def in_range_def atLeastLessThan_upt upt_rec)
  have n: "3 < N ?neg" by (simp add: N_def)
  have c: "Contains ?neg 3 = Returns False" by (simp add: Contains_def in_range_def)
  have sw: "swap 3 (- 1) ?neg = (Panics, ?neg)" by (simp add: swap_def in_range_def)
  have ins: "Insert 3 ?neg = (Panics, ?neg)" by (simp add: Insert_def N_def in_range_def swap_def)
  from r mi n c sw ins show ?thesis by blast
qed

text \<open>
  C7. For \<open>0 \<le> elem < N\<close>, on a set whose two slices have the same length (as \<^verbatim>\<open>New\<close>
  makes them and every method keeps them), \<^verbatim>\<open>Contains(elem)\<close> returns the truth value
  of \<open>positions[elem] < size\<close>. The method assigns to no field, so its model takes the
  state and returns the result only: the state after the call is the state before it.
\<close>

theorem Contains_spec:
  "0 \<le> elem \<Longrightarrow> elem < N ss \<Longrightarrow> length (positions_f ss) = length (values_f ss) \<Longrightarrow>
   Contains ss elem = Returns (positions_f ss ! nat elem < size_f ss)"
  by (simp add: Contains_def N_def in_range_def)

theorem Contains_spec_witness:
  "Contains \<lparr>size_f = 1, values_f = [2, 1, 0], positions_f = [2, 1, 0]\<rparr> 2 = Returns True \<and>
   Contains \<lparr>size_f = 1, values_f = [2, 1, 0], positions_f = [2, 1, 0]\<rparr> 0 = Returns False"
  using Contains_spec [of 2 "\<lparr>size_f = 1, values_f = [2, 1, 0], positions_f = [2, 1, 0]\<rparr>"]
    Contains_spec [of 0 "\<lparr>size_f = 1, values_f = [2, 1, 0], positions_f = [2, 1, 0]\<rparr>"]
  by (simp add: N_def)

text \<open>
  C8. \<^verbatim>\<open>Clear()\<close> sets \<^verbatim>\<open>size\<close> to 0 and leaves both slices as they were.
  Afterwards \<^verbatim>\<open>Size()\<close> is 0, \<^verbatim>\<open>Content()\<close> is empty and \<^verbatim>\<open>Absent()\<close> is the
  whole of \<^verbatim>\<open>values\<close>, which lists every element of \<open>[0, N)\<close> once when the slices
  are mutual inverses (as they are in every reachable state, lemma
  \<open>reachable_reach_inv\<close>).
\<close>

theorem Clear_spec:
  "size_f (Clear ss) = 0 \<and> values_f (Clear ss) = values_f ss \<and>
   positions_f (Clear ss) = positions_f ss \<and>
   Size (Clear ss) = 0 \<and> Content (Clear ss) = Returns [] \<and>
   Absent (Clear ss) = Returns (values_f ss) \<and>
   (mutual_inverse ss \<longrightarrow>
      distinct (values_f ss) \<and> set (values_f ss) = {0..<N ss} \<and> int (length (values_f ss)) = N ss)"
  using mutual_inverse_perm [of ss]
  by (simp add: Clear_def Size_def Content_def Absent_def N_def)

theorem Clear_spec_witness:
  "mutual_inverse \<lparr>size_f = 2, values_f = [2, 1, 0], positions_f = [2, 1, 0]\<rparr> \<and>
   Absent (Clear \<lparr>size_f = 2, values_f = [2, 1, 0], positions_f = [2, 1, 0]\<rparr>) = Returns [2, 1, 0] \<and>
   set [2, 1, 0] = {0..<(3::int)}"
proof -
  have mi: "mutual_inverse \<lparr>size_f = 2, values_f = [2, 1, 0], positions_f = [2, 1, 0]\<rparr>"
    by (simp add: mutual_inverse_def inverse_on_def in_range_def atLeastLessThan_upt upt_rec)
  with Clear_spec [of "\<lparr>size_f = 2, values_f = [2, 1, 0], positions_f = [2, 1, 0]\<rparr>"]
  show ?thesis by (simp add: N_def)
qed

text \<open>
  C9. When \<^verbatim>\<open>Insert(elem)\<close> returns \<^verbatim>\<open>nil\<close> for an absent element of \<open>[0, N)\<close>
  (on slices that are mutual inverses), \<open>elem\<close> stands at index \<open>oldSize\<close> of
  \<^verbatim>\<open>values\<close> afterwards and \<^verbatim>\<open>size\<close> is \<open>oldSize + 1\<close>. Hence on the set that
  \<^verbatim>\<open>New(n)\<close> returns, the calls of \<^verbatim>\<open>Insert\<close> on a list \<open>es\<close> of distinct
  elements of \<open>[0, n)\<close> all return \<^verbatim>\<open>nil\<close>, and \<^verbatim>\<open>Content()\<close> is then exactly
  \<open>es\<close>, in the order of insertion.
\<close>

theorem Insert_appends:
  "(mutual_inverse ss \<and> 0 \<le> elem \<and> elem < N ss \<and> \<not> positions_f ss ! nat elem < size_f ss \<and>
    Insert elem ss = (Returns None, ss') \<longrightarrow>
      0 \<le> size_f ss \<and> size_f ss' = size_f ss + 1 \<and> values_f ss' ! nat (size_f ss) = elem) \<and>
   (New n = Returns ss0 \<and> distinct es \<and> set es \<subseteq> {0..<n} \<longrightarrow>
      (\<exists>ss1. insert_all es ss0 = (Returns None, ss1) \<and> Content ss1 = Returns es))"
proof (rule conjI; rule impI)
  assume a: "mutual_inverse ss \<and> 0 \<le> elem \<and> elem < N ss \<and>
    \<not> positions_f ss ! nat elem < size_f ss \<and> Insert elem ss = (Returns None, ss')"
  then have mi: "mutual_inverse ss" and e: "0 \<le> elem" "elem < N ss"
    and ab: "\<not> positions_f ss ! nat elem < size_f ss"
    and ins: "Insert elem ss = (Returns None, ss')" by simp_all
  from Insert_absent_result(1-3) [OF mi e ab ins]
  show "0 \<le> size_f ss \<and> size_f ss' = size_f ss + 1 \<and> values_f ss' ! nat (size_f ss) = elem"
    by simp
next
  assume b: "New n = Returns ss0 \<and> distinct es \<and> set es \<subseteq> {0..<n}"
  then have new: "New n = Returns ss0" and d: "distinct es" and sub: "set es \<subseteq> {0..<n}"
    by simp_all
  from new have n: "0 \<le> n" by (auto simp: New_def split: if_splits)
  from New_closed [OF n] new
  have ss0: "ss0 = \<lparr>size_f = 0, values_f = map int [0..<nat n], positions_f = map int [0..<nat n]\<rparr>"
    by simp
  from New_reach_inv [OF new] have inv: "reach_inv ss0" and sz: "size_f ss0 = 0" by simp_all
  have N0: "N ss0 = n" using n by (simp add: ss0 N_def)
  have ab: "\<forall>e \<in> set es. 0 \<le> e \<and> e < N ss0 \<and> \<not> positions_f ss0 ! nat e < size_f ss0"
  proof
    fix e assume "e \<in> set es"
    with sub have e: "0 \<le> e" "e < n" by auto
    then have "\<not> positions_f ss0 ! nat e < size_f ss0" by (simp add: ss0)
    with e N0 show "0 \<le> e \<and> e < N ss0 \<and> \<not> positions_f ss0 ! nat e < size_f ss0"
      by simp
  qed
  have "0 \<le> size_f ss0" using sz by simp
  from insert_all_absent [OF inv this d ab] sz
  show "\<exists>ss1. insert_all es ss0 = (Returns None, ss1) \<and> Content ss1 = Returns es" by simp
qed

theorem Insert_appends_witness:
  "values_f \<lparr>size_f = 2, values_f = [2, 4, 0, 3, 1], positions_f = [2, 4, 0, 3, 1]\<rparr> ! 1 = 4 \<and>
   (\<exists>ss1. insert_all [2, 4, 1]
            \<lparr>size_f = 0, values_f = [0, 1, 2, 3, 4], positions_f = [0, 1, 2, 3, 4]\<rparr> =
            (Returns None, ss1) \<and>
          Content ss1 = Returns [2, 4, 1])"
proof -
  let ?s0 = "\<lparr>size_f = 0, values_f = [0, 1, 2, 3, 4], positions_f = [0, 1, 2, 3, 4]\<rparr>"
  let ?s1 = "\<lparr>size_f = 1, values_f = [2, 1, 0, 3, 4], positions_f = [2, 1, 0, 3, 4]\<rparr>"
  let ?s2 = "\<lparr>size_f = 2, values_f = [2, 4, 0, 3, 1], positions_f = [2, 4, 0, 3, 1]\<rparr>"
  note inst = Insert_appends [where ss = ?s1 and elem = 4 and ss' = ?s2 and n = 5 and ss0 = ?s0
      and es = "[2, 4, 1]"]
  have "mutual_inverse ?s1 \<and> (0::int) \<le> 4 \<and> 4 < N ?s1 \<and>
      \<not> positions_f ?s1 ! nat 4 < size_f ?s1 \<and> Insert 4 ?s1 = (Returns None, ?s2)"
    by (simp add: mutual_inverse_def inverse_on_def in_range_def atLeastLessThan_upt upt_rec
        N_def Insert_def swap_def)
  with inst have a: "values_f ?s2 ! nat (size_f ?s1) = 4" by blast
  have "New 5 = Returns ?s0 \<and> distinct [2, 4, 1 :: int] \<and> set [2, 4, 1] \<subseteq> {0..<(5::int)}"
    using New_5 by simp
  with inst have "\<exists>ss1. insert_all [2, 4, 1] ?s0 = (Returns None, ss1) \<and>
      Content ss1 = Returns [2, 4, 1]" by blast
  with a show ?thesis by simp
qed

text \<open>
  C10. \<^verbatim>\<open>Contains\<close> indexes \<^verbatim>\<open>positions\<close> with no test of its own. On a set whose
  two slices have the same length it panics exactly when \<open>elem\<close> is outside
  \<open>[0, N)\<close>: for \<open>0 \<le> elem < N\<close> the index is in bounds and the call returns, for
  any other \<open>elem\<close> the call panics and returns neither false nor an error.
\<close>

theorem Contains_Panics_iff:
  "length (positions_f ss) = length (values_f ss) \<Longrightarrow>
   (Contains ss elem = Panics) = (elem < 0 \<or> N ss \<le> elem)"
  by (auto simp: Contains_def N_def in_range_def)

theorem Contains_Panics_iff_witness:
  "Contains \<lparr>size_f = 1, values_f = [2, 1, 0], positions_f = [2, 1, 0]\<rparr> (- 1) = Panics \<and>
   Contains \<lparr>size_f = 1, values_f = [2, 1, 0], positions_f = [2, 1, 0]\<rparr> 3 = Panics \<and>
   Contains \<lparr>size_f = 1, values_f = [2, 1, 0], positions_f = [2, 1, 0]\<rparr> 1 \<noteq> Panics"
  using Contains_Panics_iff [of "\<lparr>size_f = 1, values_f = [2, 1, 0], positions_f = [2, 1, 0]\<rparr>" "- 1"]
    Contains_Panics_iff [of "\<lparr>size_f = 1, values_f = [2, 1, 0], positions_f = [2, 1, 0]\<rparr>" 3]
    Contains_Panics_iff [of "\<lparr>size_f = 1, values_f = [2, 1, 0], positions_f = [2, 1, 0]\<rparr>" 1]
  by (simp add: N_def)

end
